theory Spec2Isabelle
  imports Main "HOL-Library.AList" "HOL-Library.Sublist" "HOL-Library.Multiset"
begin

section \<open>Values and objects of the JavaScript program\<close>

text \<open>
  The development embeds \<^verbatim>\<open>orn.js\<close> as it runs under Node.js, where \<^verbatim>\<open>require\<close> is defined, so
  that \<^verbatim>\<open>fs\<close>, \<^verbatim>\<open>path\<close> and \<^verbatim>\<open>crypto\<close> are the platform modules and the guards \<^verbatim>\<open>if (fs)\<close>
  succeed. Writes to the backing file are taken to succeed.

  A field of a record holds a JavaScript value. Numbers are the integers plus \<^verbatim>\<open>NaN\<close>
  (fractions and infinities are left out). A nested array or object is carried by value
  together with its identity, the natural number that \<^verbatim>\<open>===\<close> compares; cyclic values are
  excluded by the type. Strings are sequences of 8-bit code units.
\<close>

type_synonym addr = nat

datatype jsval =
    JUndefined
  | JNull
  | JBool bool
  | JNum int
  | JNaN
  | JStr string
  | JArr nat "jsval list"
  | JObj nat "(string \<times> jsval) list"

text \<open>An object is its own properties in insertion order; the keys are distinct. (That
  the platform lists integer-like keys first is left out.)\<close>

type_synonym props = "(string \<times> jsval) list"

text \<open>\<^verbatim>\<open>o[k]\<close>: a missing property reads as \<^verbatim>\<open>undefined\<close>.\<close>

definition get_prop :: "props \<Rightarrow> string \<Rightarrow> jsval" where
  "get_prop ps k = (case map_of ps k of None \<Rightarrow> JUndefined | Some v \<Rightarrow> v)"

text \<open>\<^verbatim>\<open>o[k] = v\<close>: an existing property keeps its place, a new one goes last.\<close>

definition set_prop :: "string \<Rightarrow> jsval \<Rightarrow> props \<Rightarrow> props" where
  "set_prop k v ps = AList.update k v ps"

text \<open>\<^verbatim>\<open>a === b\<close>: no coercion; \<^verbatim>\<open>NaN\<close> equals nothing; objects and arrays by identity.\<close>

fun strict_eq :: "jsval \<Rightarrow> jsval \<Rightarrow> bool" where
  "strict_eq JUndefined JUndefined = True"
| "strict_eq JNull JNull = True"
| "strict_eq (JBool a) (JBool b) = (a = b)"
| "strict_eq (JNum a) (JNum b) = (a = b)"
| "strict_eq (JStr a) (JStr b) = (a = b)"
| "strict_eq (JArr i _) (JArr j _) = (i = j)"
| "strict_eq (JObj i _) (JObj j _) = (i = j)"
| "strict_eq _ _ = False"


text \<open>The store of record objects: every address holds the properties of an object.\<close>

type_synonym heap = "addr \<Rightarrow> props"

section \<open>Serialisation: what \<^verbatim>\<open>JSON.stringify(data, null, 2)\<close> writes\<close>

text \<open>A JSON document. \<^verbatim>\<open>JSON.stringify\<close> first turns a value into a document: a property
  holding \<^verbatim>\<open>undefined\<close> is left out, an array element holding \<^verbatim>\<open>undefined\<close> becomes
  \<^verbatim>\<open>null\<close>, and \<^verbatim>\<open>NaN\<close> becomes \<^verbatim>\<open>null\<close>. Identities are not written.\<close>

datatype json =
    JN
  | JB bool
  | JI int
  | JS string
  | JA "json list"
  | JO "(string \<times> json) list"

fun json_of :: "jsval \<Rightarrow> json option"
  and json_elems :: "jsval list \<Rightarrow> json list"
  and json_props :: "(string \<times> jsval) list \<Rightarrow> (string \<times> json) list" where
  "json_of JUndefined = None"
| "json_of JNull = Some JN"
| "json_of (JBool b) = Some (JB b)"
| "json_of (JNum n) = Some (JI n)"
| "json_of JNaN = Some JN"
| "json_of (JStr s) = Some (JS s)"
| "json_of (JArr _ xs) = Some (JA (json_elems xs))"
| "json_of (JObj _ ps) = Some (JO (json_props ps))"
| "json_elems [] = []"
| "json_elems (x # xs) = (case json_of x of None \<Rightarrow> JN | Some j \<Rightarrow> j) # json_elems xs"
| "json_props [] = []"
| "json_props (kv # ps) =
     (case json_of (snd kv) of None \<Rightarrow> json_props ps | Some j \<Rightarrow> (fst kv, j) # json_props ps)"

text \<open>The text of a document, indented by two spaces a level.\<close>

definition digit_char :: "nat \<Rightarrow> char" where
  "digit_char d = char_of (48 + d)"

function show_nat :: "nat \<Rightarrow> string" where
  "show_nat n = (if n < 10 then [digit_char n] else show_nat (n div 10) @ [digit_char (n mod 10)])"
  by pat_completeness auto
termination
  by (relation "measure id") auto

declare show_nat.simps [simp del]

definition show_int :: "int \<Rightarrow> string" where
  "show_int i = (if i < 0 then CHR ''-'' # show_nat (nat (- i)) else show_nat (nat i))"

definition hex_char :: "nat \<Rightarrow> char" where
  "hex_char d = (if d < 10 then char_of (48 + d) else char_of (87 + d))"

text \<open>Inside a string literal the quote, the backslash and the control characters are
  escaped.\<close>

definition escape_char :: "char \<Rightarrow> string" where
  "escape_char c =
     (if c = CHR 0x22 then [CHR 0x5C, CHR 0x22]
      else if c = CHR 0x5C then [CHR 0x5C, CHR 0x5C]
      else if c = CHR 0x08 then [CHR 0x5C, CHR ''b'']
      else if c = CHR 0x0C then [CHR 0x5C, CHR ''f'']
      else if c = CHR 0x0A then [CHR 0x5C, CHR ''n'']
      else if c = CHR 0x0D then [CHR 0x5C, CHR ''r'']
      else if c = CHR 0x09 then [CHR 0x5C, CHR ''t'']
      else if (of_char c :: nat) < 32 then
        [CHR 0x5C, CHR ''u'', CHR ''0'', CHR ''0'',
         hex_char (of_char c div 16), hex_char (of_char c mod 16)]
      else [c])"

definition quote :: "string \<Rightarrow> string" where
  "quote s = CHR 0x22 # concat (map escape_char s) @ [CHR 0x22]"

definition newline :: "nat \<Rightarrow> string" where
  "newline ind = CHR 0x0A # replicate ind CHR '' ''"

fun show_json :: "nat \<Rightarrow> json \<Rightarrow> string"
  and show_elems :: "nat \<Rightarrow> json list \<Rightarrow> string"
  and show_members :: "nat \<Rightarrow> (string \<times> json) list \<Rightarrow> string" where
  "show_json ind JN = ''null''"
| "show_json ind (JB b) = (if b then ''true'' else ''false'')"
| "show_json ind (JI i) = show_int i"
| "show_json ind (JS s) = quote s"
| "show_json ind (JA []) = ''[]''"
| "show_json ind (JA (x # xs)) =
     CHR ''['' # newline (ind + 2) @ show_elems (ind + 2) (x # xs) @ newline ind @ '']''"
| "show_json ind (JO []) = ''{}''"
| "show_json ind (JO (kv # ps)) =
     CHR ''{'' # newline (ind + 2) @ show_members (ind + 2) (kv # ps) @ newline ind @ ''}''"
| "show_elems ind [] = []"
| "show_elems ind [x] = show_json ind x"
| "show_elems ind (x # y # ys) =
     show_json ind x @ CHR '','' # newline ind @ show_elems ind (y # ys)"
| "show_members ind [] = []"
| "show_members ind [kv] = quote (fst kv) @ '': '' @ show_json ind (snd kv)"
| "show_members ind (kv # kv' # ps) =
     quote (fst kv) @ '': '' @ show_json ind (snd kv) @ CHR '','' # newline ind
       @ show_members ind (kv' # ps)"

text \<open>\<^verbatim>\<open>JSON.stringify(this.data, null, 2)\<close>: the array of the records, each an object.\<close>

definition data_json :: "heap \<Rightarrow> addr list \<Rightarrow> json" where
  "data_json h d = JA (map (\<lambda>a. JO (json_props (h a))) d)"

definition JSON_stringify :: "heap \<Rightarrow> addr list \<Rightarrow> string" where
  "JSON_stringify h d = show_json 0 (data_json h d)"

section \<open>Parsing: what \<^verbatim>\<open>JSON.parse(raw)\<close> reads\<close>

text \<open>A recursive-descent reader of JSON text. It fails with \<open>SyntaxError\<close> where
  \<^verbatim>\<open>JSON.parse\<close> throws. \<open>Unsupported\<close> marks well-formed input that the value type does not
  represent: a number written with a fraction or an exponent, or a four-digit escape above
  \<^verbatim>\<open>00ff\<close>. The readers of values, elements and members recurse on a counter that
  \<open>JSON_parse\<close> sets from the length of the text; \<open>OutOfFuel\<close> would mark its exhaustion.\<close>

datatype parse_error = SyntaxError | Unsupported | OutOfFuel

text \<open>White space, digits and escapes.\<close>

definition is_ws :: "char \<Rightarrow> bool" where
  "is_ws c = (c = CHR 0x20 \<or> c = CHR 0x09 \<or> c = CHR 0x0A \<or> c = CHR 0x0D)"

definition skip_ws :: "string \<Rightarrow> string" where
  "skip_ws s = dropWhile is_ws s"

definition is_digit :: "char \<Rightarrow> bool" where
  "is_digit c = (48 \<le> (of_char c :: nat) \<and> (of_char c :: nat) \<le> 57)"

definition digit_val :: "char \<Rightarrow> nat" where
  "digit_val c = of_char c - 48"

definition digits_val :: "string \<Rightarrow> nat" where
  "digits_val ds = foldl (\<lambda>n c. 10 * n + digit_val c) 0 ds"

definition hex_val :: "char \<Rightarrow> nat option" where
  "hex_val c =
     (let n = (of_char c :: nat) in
      if 48 \<le> n \<and> n \<le> 57 then Some (n - 48)
      else if 97 \<le> n \<and> n \<le> 102 then Some (n - 87)
      else if 65 \<le> n \<and> n \<le> 70 then Some (n - 55)
      else None)"

definition hex4 :: "char \<Rightarrow> char \<Rightarrow> char \<Rightarrow> char \<Rightarrow> nat option" where
  "hex4 a b c d =
     (case (hex_val a, hex_val b, hex_val c, hex_val d) of
        (Some x, Some y, Some z, Some w) \<Rightarrow> Some (((x * 16 + y) * 16 + z) * 16 + w)
      | _ \<Rightarrow> None)"

definition unescape :: "char \<Rightarrow> char option" where
  "unescape e =
     (if e = CHR 0x22 then Some (CHR 0x22)
      else if e = CHR 0x5C then Some (CHR 0x5C)
      else if e = CHR ''/'' then Some (CHR ''/'')
      else if e = CHR ''b'' then Some (CHR 0x08)
      else if e = CHR ''f'' then Some (CHR 0x0C)
      else if e = CHR ''n'' then Some (CHR 0x0A)
      else if e = CHR ''r'' then Some (CHR 0x0D)
      else if e = CHR ''t'' then Some (CHR 0x09)
      else None)"

text \<open>The characters of a string literal, after its opening quote.\<close>

definition with_head :: "'a \<Rightarrow> parse_error + ('a list \<times> string) \<Rightarrow> parse_error + ('a list \<times> string)" where
  "with_head x r = (case r of Inl e \<Rightarrow> Inl e | Inr (xs, rest) \<Rightarrow> Inr (x # xs, rest))"

fun parse_chars :: "string \<Rightarrow> parse_error + (string \<times> string)" where
  "parse_chars [] = Inl SyntaxError"
| "parse_chars (c # cs) =
     (if c = CHR 0x22 then Inr ([], cs)
      else if c = CHR 0x5C then
        (case cs of
           [] \<Rightarrow> Inl SyntaxError
         | e # cs1 \<Rightarrow>
             if e = CHR ''u'' then
               (case cs1 of
                  h1 # h2 # h3 # h4 # cs2 \<Rightarrow>
                    (case hex4 h1 h2 h3 h4 of
                       None \<Rightarrow> Inl SyntaxError
                     | Some n \<Rightarrow> if n < 256 then with_head (char_of n) (parse_chars cs2)
                                else Inl Unsupported)
                | _ \<Rightarrow> Inl SyntaxError)
             else
               (case unescape e of
                  None \<Rightarrow> Inl SyntaxError
                | Some ch \<Rightarrow> with_head ch (parse_chars cs1)))
      else if (of_char c :: nat) < 32 then Inl SyntaxError
      else with_head c (parse_chars cs))"

text \<open>After the integer part: a fraction or an exponent.\<close>

definition exponent_ok :: "string \<Rightarrow> bool" where
  "exponent_ok s =
     (case s of
        [] \<Rightarrow> False
      | c # cs \<Rightarrow>
          if c = CHR ''+'' \<or> c = CHR ''-'' then takeWhile is_digit cs \<noteq> []
          else takeWhile is_digit (c # cs) \<noteq> [])"

definition fraction_ok :: "string \<Rightarrow> bool" where
  "fraction_ok s =
     (takeWhile is_digit s \<noteq> [] \<and>
      (case dropWhile is_digit s of
         [] \<Rightarrow> True
       | c # cs \<Rightarrow> if c = CHR ''e'' \<or> c = CHR ''E'' then exponent_ok cs else True))"

definition parse_digits :: "bool \<Rightarrow> string \<Rightarrow> parse_error + (json \<times> string)" where
  "parse_digits neg s =
     (let ds = takeWhile is_digit s; rest = dropWhile is_digit s
      in if ds = [] then Inl SyntaxError
         else if hd ds = CHR ''0'' \<and> length ds > 1 then Inl SyntaxError
         else (case rest of
                 [] \<Rightarrow> Inr (JI (if neg then - int (digits_val ds) else int (digits_val ds)), rest)
               | c # cs \<Rightarrow>
                   if c = CHR ''.'' then
                     (if fraction_ok cs then Inl Unsupported else Inl SyntaxError)
                   else if c = CHR ''e'' \<or> c = CHR ''E'' then
                     (if exponent_ok cs then Inl Unsupported else Inl SyntaxError)
                   else Inr (JI (if neg then - int (digits_val ds) else int (digits_val ds)), rest)))"

definition parse_number :: "string \<Rightarrow> parse_error + (json \<times> string)" where
  "parse_number s =
     (case s of
        [] \<Rightarrow> Inl SyntaxError
      | c # cs \<Rightarrow> if c = CHR ''-'' then parse_digits True cs else parse_digits False (c # cs))"

text \<open>An object literal with a key written twice keeps the first position and the last
  value.\<close>

definition members_object :: "(string \<times> json) list \<Rightarrow> json" where
  "members_object ms = JO (foldl (\<lambda>acc kv. AList.update (fst kv) (snd kv) acc) [] ms)"

definition expect :: "string \<Rightarrow> json \<Rightarrow> string \<Rightarrow> parse_error + (json \<times> string)" where
  "expect w j s = (if take (length w) s = w then Inr (j, drop (length w) s) else Inl SyntaxError)"

text \<open>The key of a member and the colon after it.\<close>

definition parse_key :: "string \<Rightarrow> parse_error + (string \<times> string)" where
  "parse_key s =
     (case skip_ws s of
        [] \<Rightarrow> Inl SyntaxError
      | q # s1 \<Rightarrow>
          if q \<noteq> CHR 0x22 then Inl SyntaxError
          else (case parse_chars s1 of
                  Inl e \<Rightarrow> Inl e
                | Inr (k, s2) \<Rightarrow>
                    (case skip_ws s2 of
                       [] \<Rightarrow> Inl SyntaxError
                     | c # s3 \<Rightarrow> if c \<noteq> CHR '':'' then Inl SyntaxError else Inr (k, s3))))"

fun parse_value :: "nat \<Rightarrow> string \<Rightarrow> parse_error + (json \<times> string)"
  and parse_elems :: "nat \<Rightarrow> string \<Rightarrow> parse_error + (json list \<times> string)"
  and parse_members :: "nat \<Rightarrow> string \<Rightarrow> parse_error + ((string \<times> json) list \<times> string)" where
  "parse_value 0 s = Inl OutOfFuel"
| "parse_value (Suc n) s =
     (case skip_ws s of
        [] \<Rightarrow> Inl SyntaxError
      | c # cs \<Rightarrow>
          if c = CHR ''['' then
            (case skip_ws cs of
               [] \<Rightarrow> Inl SyntaxError
             | d # ds \<Rightarrow>
                 if d = CHR '']'' then Inr (JA [], ds)
                 else (case parse_elems n cs of
                         Inl e \<Rightarrow> Inl e
                       | Inr (vs, rest) \<Rightarrow> Inr (JA vs, rest)))
          else if c = CHR ''{'' then
            (case skip_ws cs of
               [] \<Rightarrow> Inl SyntaxError
             | d # ds \<Rightarrow>
                 if d = CHR ''}'' then Inr (JO [], ds)
                 else (case parse_members n cs of
                         Inl e \<Rightarrow> Inl e
                       | Inr (ms, rest) \<Rightarrow> Inr (members_object ms, rest)))
          else if c = CHR 0x22 then
            (case parse_chars cs of
               Inl e \<Rightarrow> Inl e
             | Inr (str, rest) \<Rightarrow> Inr (JS str, rest))
          else if c = CHR ''n'' then expect ''null'' JN (c # cs)
          else if c = CHR ''t'' then expect ''true'' (JB True) (c # cs)
          else if c = CHR ''f'' then expect ''false'' (JB False) (c # cs)
          else parse_number (c # cs))"
| "parse_elems 0 s = Inl OutOfFuel"
| "parse_elems (Suc n) s =
     (case parse_value n s of
        Inl e \<Rightarrow> Inl e
      | Inr (v, rest) \<Rightarrow>
          (case skip_ws rest of
             [] \<Rightarrow> Inl SyntaxError
           | c # cs \<Rightarrow>
               if c = CHR '','' then with_head v (parse_elems n cs)
               else if c = CHR '']'' then Inr ([v], cs)
               else Inl SyntaxError))"
| "parse_members 0 s = Inl OutOfFuel"
| "parse_members (Suc n) s =
     (case parse_key s of
        Inl e \<Rightarrow> Inl e
      | Inr (k, s1) \<Rightarrow>
          (case parse_value n s1 of
             Inl e \<Rightarrow> Inl e
           | Inr (v, rest) \<Rightarrow>
               (case skip_ws rest of
                  [] \<Rightarrow> Inl SyntaxError
                | c # cs \<Rightarrow>
                    if c = CHR '','' then with_head (k, v) (parse_members n cs)
                    else if c = CHR ''}'' then Inr ([(k, v)], cs)
                    else Inl SyntaxError)))"

definition JSON_parse :: "string \<Rightarrow> parse_error + json" where
  "JSON_parse raw =
     (case parse_value (2 * length raw + 2) raw of
        Inl e \<Rightarrow> Inl e
      | Inr (j, rest) \<Rightarrow> if skip_ws rest = [] then Inr j else Inl SyntaxError)"




section \<open>OrnCollection and OrnRecord\<close>

text \<open>The state of one collection: the store of record objects, \<^verbatim>\<open>this.data\<close> (the canonical
  sequence, an array of references) and the contents of the backing file, if it exists.\<close>

record state =
  heap :: heap
  data :: "addr list"
  disk :: "string option"

definition save_file :: "state \<Rightarrow> state" where
  \<comment> \<open>\<^verbatim>\<open>_save()\<close>\<close>
  "save_file s = s\<lparr>disk := Some (JSON_stringify (heap s) (data s))\<rparr>"



text \<open>\<^verbatim>\<open>Object.assign(target, source)\<close> copies the own properties of the source, in order.\<close>

definition Object_assign :: "props \<Rightarrow> props \<Rightarrow> props" where
  "Object_assign target source = foldl (\<lambda>t kv. set_prop (fst kv) (snd kv) t) target source"

text \<open>A handle: \<^verbatim>\<open>this.obj\<close>, the reference it was built from, and the properties that
  \<^verbatim>\<open>Object.assign(this, obj)\<close> copied onto the handle itself. The handle's \<^verbatim>\<open>collection\<close> is
  the one collection of the state. The slots \<^verbatim>\<open>collection\<close> and \<^verbatim>\<open>obj\<close> are kept apart from
  the copied properties: a record with a field of one of these two names is outside the
  model.\<close>

record OrnRecord =
  rec_obj :: addr
  rec_own :: props

definition OrnRecord_new :: "heap \<Rightarrow> addr \<Rightarrow> OrnRecord" where
  "OrnRecord_new h a = \<lparr>rec_obj = a, rec_own = Object_assign [] (h a)\<rparr>"



definition collection_where :: "string \<Rightarrow> jsval \<Rightarrow> state \<Rightarrow> addr list" where
  "collection_where field v s = filter (\<lambda>r. strict_eq (get_prop (heap s r) field) v) (data s)"


definition clear :: "state \<Rightarrow> state" where
  "clear s = save_file (s\<lparr>data := []\<rparr>)"





definition first :: "heap \<Rightarrow> addr list \<Rightarrow> OrnRecord option" where
  "first h records = (if length records > 0 then Some (OrnRecord_new h (records ! 0)) else None)"

section \<open>OrnQuery\<close>


text \<open>\<^verbatim>\<open>a < b\<close> on field values. Two numbers compare as numbers and two strings by their
  code units. Otherwise both sides are turned into numbers (\<^verbatim>\<open>null\<close> and \<^verbatim>\<open>false\<close> are 0,
  \<^verbatim>\<open>true\<close> is 1, \<^verbatim>\<open>undefined\<close> is \<^verbatim>\<open>NaN\<close>) and a comparison with \<^verbatim>\<open>NaN\<close> is false. The
  conversion of a string, a nested object or an array to a number is not modelled: here it
  gives \<^verbatim>\<open>NaN\<close>, and the properties below are about keys that are all numbers or all
  strings.\<close>

fun str_lt :: "string \<Rightarrow> string \<Rightarrow> bool" where
  "str_lt [] [] = False"
| "str_lt [] (y # ys) = True"
| "str_lt (x # xs) [] = False"
| "str_lt (x # xs) (y # ys) =
     ((of_char x :: nat) < of_char y \<or> (x = y \<and> str_lt xs ys))"

fun to_number :: "jsval \<Rightarrow> int option" where
  "to_number JNull = Some 0"
| "to_number (JBool b) = Some (if b then 1 else 0)"
| "to_number (JNum n) = Some n"
| "to_number _ = None"

fun js_lt :: "jsval \<Rightarrow> jsval \<Rightarrow> bool" where
  "js_lt (JStr a) (JStr b) = str_lt a b"
| "js_lt x y =
     (case (to_number x, to_number y) of (Some m, Some n) \<Rightarrow> m < n | _ \<Rightarrow> False)"





text \<open>\<^verbatim>\<open>records.slice(0, n)\<close> for an integer \<^verbatim>\<open>n\<close>: a negative end counts from the end of
  the array.\<close>

definition slice0 :: "int \<Rightarrow> 'a list \<Rightarrow> 'a list" where
  "slice0 n xs =
     (if n < 0 then take (nat (max (int (length xs) + n) 0)) xs else take (nat n) xs)"

definition limit :: "int \<Rightarrow> addr list \<Rightarrow> addr list" where
  "limit n records = slice0 n records"

section \<open>Statements of a caller, and the notions the properties are stated with\<close>



















section \<open>Properties of the query builder\<close>


text \<open>
  C7. For n \<ge> 0, \<^verbatim>\<open>limit(n)\<close> keeps the first n entries of the snapshot; \<^verbatim>\<open>limit(0)\<close> gives
  the empty result; when n is at least the length of the snapshot, the snapshot is unchanged.
\<close>

theorem limit_take:
  "0 \<le> n \<Longrightarrow>
     limit n rs = take (nat n) rs
     \<and> limit 0 rs = []
     \<and> (int (length rs) \<le> n \<longrightarrow> limit n rs = rs)"
  by (simp add: limit_def slice0_def)

theorem limit_take_witness:
  "(0::int) \<le> 2 \<and> limit 2 [5, 6, 7] = [5, 6] \<and> limit 0 [5, 6, 7] = []
   \<and> (0::int) \<le> 9 \<and> int (length [5, 6, 7 :: addr]) \<le> 9 \<and> limit 9 [5, 6, 7] = [5, 6, 7]"
  using limit_take [of 2 "[5, 6, 7]"] limit_take [of 9 "[5, 6, 7]"]
  by (simp add: numeral_2_eq_2)


section \<open>Properties of the collection and its handles\<close>





































section \<open>Sorting a snapshot\<close>







lemma js_lt_num: "js_lt (JNum m) (JNum n) \<longleftrightarrow> m < n"
  by simp






















section \<open>Loading and the round trip through the file\<close>





section \<open>The reader inverts the printer\<close>

subsection \<open>White space\<close>

lemma skip_ws_newline: "skip_ws (newline k @ s) = skip_ws s"
  by (simp add: skip_ws_def newline_def is_ws_def dropWhile_append)

lemma skip_ws_start: "\<not> is_ws c \<Longrightarrow> skip_ws (c # s) = c # s"
  by (simp add: skip_ws_def)

lemma length_skip_ws: "length (skip_ws s) \<le> length s"
  by (simp add: skip_ws_def length_dropWhile_le)

subsection \<open>String literals\<close>

lemma hex_val_hex_char: "d < 16 \<Longrightarrow> hex_val (hex_char d) = Some d"
  by (simp add: hex_val_def hex_char_def Let_def)

lemma hex_val_zero: "hex_val CHR ''0'' = Some 0"
  by (simp add: hex_val_def)

lemma parse_chars_escape: "parse_chars (escape_char c @ t) = with_head c (parse_chars t)"
proof -
  have low: "hex4 CHR ''0'' CHR ''0'' (hex_char (of_char c div 16)) (hex_char (of_char c mod 16))
      = Some (of_char c)" if "(of_char c :: nat) < 32"
  proof -
    from that have "(of_char c :: nat) div 16 < 16" by simp
    then show ?thesis
      by (simp add: hex4_def hex_val_zero hex_val_hex_char)
  qed
  show ?thesis
  proof (cases "(of_char c :: nat) < 32")
    case True
    with low show ?thesis
      by (simp add: escape_char_def unescape_def)
  next
    case False
    then show ?thesis
      by (simp add: escape_char_def unescape_def)
  qed
qed

lemma parse_chars_quote_body:
  "parse_chars (concat (map escape_char s) @ CHR 0x22 # rest) = Inr (s, rest)"
  by (induction s) (simp_all add: parse_chars_escape with_head_def)

lemma parse_chars_quote: "parse_chars (tl (quote s) @ rest) = Inr (s, rest)"
  using parse_chars_quote_body [of s rest] by (simp add: quote_def)

subsection \<open>Numbers\<close>

















subsection \<open>Fuel\<close>


lemma with_head_Inr:
  "with_head x r = Inr (ys, rest) \<longleftrightarrow> (\<exists>xs. r = Inr (xs, rest) \<and> ys = x # xs)"
  by (auto simp: with_head_def split: sum.splits)

lemma parse_chars_shorter: "parse_chars s = Inr (k, r) \<Longrightarrow> length r < length s"
proof (induction s arbitrary: k r rule: length_induct)
  case (1 s)
  show ?case
  proof (cases s)
    case Nil
    with "1.prems" show ?thesis by simp
  next
    case (Cons c cs)
    have ih: "length r' < length s"
      if "parse_chars t = Inr (k', r')" "length t \<le> length cs" for t k' r'
    proof -
      from that(2) Cons have "length t < length s" by simp
      with "1.IH" that(1) have "length r' < length t" by blast
      with \<open>length t < length s\<close> show ?thesis by simp
    qed
    from "1.prems" show ?thesis
      unfolding Cons
      by (auto simp: with_head_Inr split: if_splits list.splits option.splits intro: ih [unfolded Cons] dest: ih [unfolded Cons])
  qed
qed

lemma parse_digits_shorter: "parse_digits neg s = Inr (j, r) \<Longrightarrow> length r < length s"
proof -
  assume a: "parse_digits neg s = Inr (j, r)"
  then have ne: "takeWhile is_digit s \<noteq> []" and r: "r = dropWhile is_digit s"
    by (auto simp: parse_digits_def Let_def split: if_splits list.splits)
  have "length (takeWhile is_digit s) + length (dropWhile is_digit s) = length s"
    by (metis length_append takeWhile_dropWhile_id)
  with ne r show ?thesis by (cases "takeWhile is_digit s") auto
qed

lemma parse_number_shorter: "parse_number s = Inr (j, r) \<Longrightarrow> length r < length s"
  by (cases s) (auto simp: parse_number_def split: if_splits dest!: parse_digits_shorter)

lemma expect_shorter: "w \<noteq> [] \<Longrightarrow> expect w j s = Inr (j', r) \<Longrightarrow> length r < length s"
proof -
  assume w: "w \<noteq> []" and e: "expect w j s = Inr (j', r)"
  then have t: "take (length w) s = w" and r: "r = drop (length w) s"
    by (auto simp: expect_def split: if_splits)
  from t have "length (take (length w) s) = length w" by simp
  then have "length w \<le> length s" by simp
  with w r show ?thesis by (cases w) auto
qed

lemma parse_key_shorter: "parse_key s = Inr (k, r) \<Longrightarrow> length r < length s"
proof -
  assume a: "parse_key s = Inr (k, r)"
  then obtain s1 s2 where s1: "skip_ws s = CHR 0x22 # s1" and pc: "parse_chars s1 = Inr (k, s2)"
    and s2: "skip_ws s2 = CHR '':'' # r"
    by (auto simp: parse_key_def split: list.splits if_splits sum.splits)
  from length_skip_ws [of s] s1 have "length s1 < length s" by simp
  moreover from parse_chars_shorter [OF pc] have "length s2 < length s1" .
  moreover from length_skip_ws [of s2] s2 have "length r < length s2" by simp
  ultimately show ?thesis by simp
qed

lemma parse_shorter:
  "(parse_value n s = Inr (j, r) \<longrightarrow> length r < length s)
   \<and> (parse_elems n s = Inr (js, r) \<longrightarrow> length r < length s)
   \<and> (parse_members n s = Inr (ms, r) \<longrightarrow> length r < length s)"
proof (induction n arbitrary: s j js ms r)
  case 0
  show ?case by simp
next
  case (Suc n)
  have ihv: "\<And>s j r. parse_value n s = Inr (j, r) \<Longrightarrow> length r < length s"
    and ihe: "\<And>s js r. parse_elems n s = Inr (js, r) \<Longrightarrow> length r < length s"
    and ihm: "\<And>s ms r. parse_members n s = Inr (ms, r) \<Longrightarrow> length r < length s"
    using Suc.IH by blast+
  have v: "length r < length s" if pv: "parse_value (Suc n) s = Inr (j, r)"
  proof (cases "skip_ws s")
    case Nil
    with pv show ?thesis by simp
  next
    case (Cons c cs)
    with length_skip_ws [of s] have cs: "length cs < length s" by simp
    have sk: "length ds < length s" if "skip_ws cs = d # ds" for d ds
      using that length_skip_ws [of cs] cs by simp
    have el: "length r < length s" if "parse_elems n cs = Inr (vs, r)" for vs
      using ihe [OF that] cs by simp
    have me: "length r < length s" if "parse_members n cs = Inr (ms', r)" for ms'
      using ihm [OF that] cs by simp
    have ch: "length r < length s" if "parse_chars cs = Inr (str, r)" for str
      using parse_chars_shorter [OF that] cs by simp
    have ex: "length r < length s" if "expect w j' (x # cs) = Inr (j, r)" "w \<noteq> []" for w j' x
      using expect_shorter [OF that(2) that(1)] cs by simp
    have nu: "length r < length s" if "parse_number (c # cs) = Inr (j, r)"
      using parse_number_shorter [OF that] Cons length_skip_ws [of s] by simp
    from pv Cons show ?thesis
      by (auto split: if_splits list.splits sum.splits dest: sk el me ch nu ex [where w = "''null''"]
          ex [where w = "''true''"] ex [where w = "''false''"])
  qed
  have e: "length r < length s" if pe: "parse_elems (Suc n) s = Inr (js, r)"
  proof -
    from pe obtain v rest c cs where pv: "parse_value n s = Inr (v, rest)"
      and sk: "skip_ws rest = c # cs"
      and tail: "(c = CHR '','' \<and> with_head v (parse_elems n cs) = Inr (js, r)) \<or> r = cs"
      by (auto split: sum.splits list.splits if_splits)
    from ihv [OF pv] have "length rest < length s" .
    with sk length_skip_ws [of rest] have cs: "length cs < length s" by simp
    from tail show ?thesis
    proof
      assume "c = CHR '','' \<and> with_head v (parse_elems n cs) = Inr (js, r)"
      then obtain vs where "parse_elems n cs = Inr (vs, r)"
        by (auto simp: with_head_Inr)
      from ihe [OF this] cs show ?thesis by simp
    next
      assume "r = cs"
      with cs show ?thesis by simp
    qed
  qed
  have m: "length r < length s" if pm: "parse_members (Suc n) s = Inr (ms, r)"
  proof -
    from pm obtain k s1 v rest c cs where pk: "parse_key s = Inr (k, s1)"
      and pv: "parse_value n s1 = Inr (v, rest)"
      and sk: "skip_ws rest = c # cs"
      and tail: "(c = CHR '','' \<and> with_head (k, v) (parse_members n cs) = Inr (ms, r)) \<or> r = cs"
      by (auto split: sum.splits list.splits if_splits)
    from parse_key_shorter [OF pk] have "length s1 < length s" .
    moreover from ihv [OF pv] have "length rest < length s1" .
    ultimately have cs: "length cs < length s"
      using sk length_skip_ws [of rest] by simp
    from tail show ?thesis
    proof
      assume "c = CHR '','' \<and> with_head (k, v) (parse_members n cs) = Inr (ms, r)"
      then obtain ms' where "parse_members n cs = Inr (ms', r)"
        by (auto simp: with_head_Inr)
      from ihm [OF this] cs show ?thesis by simp
    next
      assume "r = cs"
      with cs show ?thesis by simp
    qed
  qed
  from v e m show ?case by blast
qed

lemma with_head_Inl: "with_head x r = Inl e \<longleftrightarrow> r = Inl e"
  by (auto simp: with_head_def split: sum.splits)

lemma parse_chars_error: "parse_chars s = Inl e \<Longrightarrow> e \<noteq> OutOfFuel"
proof (induction s arbitrary: e rule: length_induct)
  case (1 s)
  show ?case
  proof (cases s)
    case Nil
    with "1.prems" show ?thesis by auto
  next
    case (Cons c cs)
    have ih: "e' \<noteq> OutOfFuel" if "parse_chars t = Inl e'" "length t \<le> length cs" for t e'
    proof -
      from that(2) Cons have "length t < length s" by simp
      with "1.IH" that(1) show ?thesis by blast
    qed
    from "1.prems" show ?thesis
      unfolding Cons
      by (auto simp: with_head_Inl split: if_splits list.splits option.splits dest: ih)
  qed
qed

lemma parse_chars_fuel: "parse_chars s \<noteq> Inl OutOfFuel"
  using parse_chars_error [of s OutOfFuel] by blast

lemma parse_digits_fuel: "parse_digits neg s \<noteq> Inl OutOfFuel"
  by (simp add: parse_digits_def Let_def split: list.splits)

lemma parse_number_fuel: "parse_number s \<noteq> Inl OutOfFuel"
  by (cases s) (simp_all add: parse_number_def parse_digits_fuel)

lemma expect_fuel: "expect w j s \<noteq> Inl OutOfFuel"
  by (simp add: expect_def)

lemma parse_key_fuel: "parse_key s \<noteq> Inl OutOfFuel"
proof (cases "skip_ws s")
  case Nil
  then show ?thesis by (simp add: parse_key_def)
next
  case (Cons q s1)
  show ?thesis
  proof (cases "parse_chars s1")
    case (Inl e)
    with parse_chars_fuel [of s1] Cons show ?thesis
      by (auto simp: parse_key_def)
  next
    case (Inr ks)
    with Cons show ?thesis
      by (cases ks; cases "skip_ws (snd ks)") (simp_all add: parse_key_def)
  qed
qed

lemma with_head_fuel: "with_head x r \<noteq> Inl OutOfFuel \<longleftrightarrow> r \<noteq> Inl OutOfFuel"
  by (simp add: with_head_Inl)

lemma enough_fuel:
  "(2 * length s + 1 \<le> n \<longrightarrow> parse_value n s \<noteq> Inl OutOfFuel)
   \<and> (2 * length s + 2 \<le> n \<longrightarrow> parse_elems n s \<noteq> Inl OutOfFuel)
   \<and> (2 * length s + 2 \<le> n \<longrightarrow> parse_members n s \<noteq> Inl OutOfFuel)"
proof (induction n arbitrary: s)
  case 0
  show ?case by simp
next
  case (Suc n)
  have ihv: "\<And>s. 2 * length s + 1 \<le> n \<Longrightarrow> parse_value n s \<noteq> Inl OutOfFuel"
    and ihe: "\<And>s. 2 * length s + 2 \<le> n \<Longrightarrow> parse_elems n s \<noteq> Inl OutOfFuel"
    and ihm: "\<And>s. 2 * length s + 2 \<le> n \<Longrightarrow> parse_members n s \<noteq> Inl OutOfFuel"
    using Suc.IH by blast+
  have v: "parse_value (Suc n) s \<noteq> Inl OutOfFuel" if n: "2 * length s + 1 \<le> Suc n"
  proof (cases "skip_ws s")
    case Nil
    then show ?thesis by simp
  next
    case (Cons c cs)
    with length_skip_ws [of s] have "length cs < length s" by simp
    with n have "2 * length cs + 2 \<le> n" by simp
    then have "parse_elems n cs \<noteq> Inl OutOfFuel" "parse_members n cs \<noteq> Inl OutOfFuel"
      by (simp_all add: ihe ihm)
    with Cons show ?thesis
      using parse_chars_fuel [of cs] parse_number_fuel [of "c # cs"]
      by (auto simp: expect_fuel split: list.splits sum.splits)
  qed
  have e: "parse_elems (Suc n) s \<noteq> Inl OutOfFuel" if n: "2 * length s + 2 \<le> Suc n"
  proof (cases "parse_value n s")
    case (Inl err)
    with ihv [of s] n show ?thesis by auto
  next
    case (Inr vr)
    obtain v rest where vr: "vr = (v, rest)" by (cases vr)
    from Inr vr parse_shorter [of n s v rest] have rest: "length rest < length s" by simp
    show ?thesis
    proof (cases "skip_ws rest")
      case Nil
      with Inr vr show ?thesis by simp
    next
      case (Cons c cs)
      with length_skip_ws [of rest] rest have "length cs + 2 \<le> length s" by simp
      with n have "2 * length cs + 2 \<le> n" by simp
      then have "parse_elems n cs \<noteq> Inl OutOfFuel" by (rule ihe)
      with Inr vr Cons show ?thesis by (simp add: with_head_fuel)
    qed
  qed
  have m: "parse_members (Suc n) s \<noteq> Inl OutOfFuel" if n: "2 * length s + 2 \<le> Suc n"
  proof (cases "parse_key s")
    case (Inl err)
    with parse_key_fuel [of s] show ?thesis by auto
  next
    case key: (Inr ks)
    obtain k s1 where ks: "ks = (k, s1)" by (cases ks)
    from key ks parse_key_shorter [of s k s1] have s1: "length s1 < length s" by simp
    show ?thesis
    proof (cases "parse_value n s1")
      case (Inl err)
      from s1 n have "2 * length s1 + 1 \<le> n" by simp
      with ihv [of s1] Inl key ks show ?thesis by auto
    next
      case (Inr vr)
      obtain v rest where vr: "vr = (v, rest)" by (cases vr)
      from Inr vr parse_shorter [of n s1 v rest] have rest: "length rest < length s1" by simp
      show ?thesis
      proof (cases "skip_ws rest")
        case Nil
        with key ks Inr vr show ?thesis by simp
      next
        case (Cons c cs)
        with length_skip_ws [of rest] rest s1 have "length cs + 2 \<le> length s" by simp
        with n have "2 * length cs + 2 \<le> n" by simp
        then have "parse_members n cs \<noteq> Inl OutOfFuel" by (rule ihm)
        with key ks Inr vr Cons show ?thesis by (simp add: with_head_fuel)
      qed
    qed
  qed
  from v e m show ?case by blast
qed

lemma JSON_parse_fuel: "JSON_parse raw \<noteq> Inl OutOfFuel"
  using enough_fuel [of raw "2 * length raw + 2"]
  by (auto simp: JSON_parse_def split: sum.splits)






subsection \<open>Leading white space\<close>

lemma skip_ws_idem: "skip_ws (skip_ws s) = skip_ws s"
  by (simp add: skip_ws_def dropWhile_idem)

lemma parse_value_skip: "parse_value n (skip_ws s) = parse_value n s"
  by (cases n) (simp_all add: skip_ws_idem)




lemma parse_value_newline: "parse_value n (newline k @ s) = parse_value n s"
  using parse_value_skip [of n "newline k @ s"] parse_value_skip [of n s]
  by (simp add: skip_ws_newline)



subsection \<open>More fuel\<close>






subsection \<open>Steps of the reader\<close>








subsection \<open>How a printed document starts\<close>




subsection \<open>Reading back what was printed\<close>




















section \<open>The round trip of a collection\<close>

subsection \<open>From values to documents and back\<close>














end
